theory Spec2Isabelle
  imports Main "HOL-Library.Word" "HOL-Library.List_Lexorder" "HOL-Library.Sublist"
begin

section \<open>JavaScript strings\<close>

text \<open>
  A JavaScript string is a sequence of UTF-16 code units. All string methods the blog's
  library module calls (\<open>slice\<close>, \<open>substring\<close>, \<open>indexOf\<close>, \<open>split\<close>, \<open>join\<close>,
  \<open>trimStart\<close>, \<open>replace\<close>) count and compare code units, and so does the default
  comparison of \<open>Array.prototype.sort\<close>.
\<close>

type_synonym code_unit = "16 word"

type_synonym jsstring = "code_unit list"

definition js :: "string \<Rightarrow> jsstring" where
  \<comment> \<open>An ASCII literal as a JavaScript string.\<close>
  "js s = map of_char s"

definition LF :: code_unit where "LF = 0x0A"

definition HYPHEN :: code_unit where "HYPHEN = 0x2D"

definition DOT :: code_unit where "DOT = 0x2E"

definition SLASH :: code_unit where "SLASH = 0x2F"

definition isDigit :: "code_unit \<Rightarrow> bool" where
  \<comment> \<open>The regular expression class \<open>\d\<close> (without the unicode flag): \<open>0\<close> to \<open>9\<close>.\<close>
  "isDigit c \<longleftrightarrow> 0x30 \<le> c \<and> c \<le> 0x39"

definition isWhiteSpace :: "code_unit \<Rightarrow> bool" where
  \<comment> \<open>ECMAScript WhiteSpace and LineTerminator, the code units \<open>trimStart\<close> removes.\<close>
  "isWhiteSpace c \<longleftrightarrow>
     c = 0x09 \<or> c = 0x0A \<or> c = 0x0B \<or> c = 0x0C \<or> c = 0x0D \<or> c = 0x20 \<or> c = 0xA0 \<or>
     c = 0x1680 \<or> (0x2000 \<le> c \<and> c \<le> 0x200A) \<or> c = 0x2028 \<or> c = 0x2029 \<or>
     c = 0x202F \<or> c = 0x205F \<or> c = 0x3000 \<or> c = 0xFEFF"

definition trimStart :: "jsstring \<Rightarrow> jsstring" where
  "trimStart s = dropWhile isWhiteSpace s"

fun indexOf :: "jsstring \<Rightarrow> code_unit \<Rightarrow> int" where
  \<comment> \<open>\<open>s.indexOf(c)\<close> for a search string of one code unit: the first index, or \<open>-1\<close>.\<close>
  "indexOf [] c = -1"
| "indexOf (x # xs) c =
     (if x = c then 0 else (let i = indexOf xs c in if i < 0 then -1 else i + 1))"

definition substring :: "jsstring \<Rightarrow> int \<Rightarrow> int \<Rightarrow> jsstring" where
  \<comment> \<open>\<open>s.substring(start, end)\<close>: both indices are clamped to \<open>[0, length]\<close> and swapped
      when \<open>start > end\<close>.\<close>
  "substring s start fin =
     (let len = int (length s);
          finalStart = min (max start 0) len;
          finalEnd = min (max fin 0) len;
          from = min finalStart finalEnd;
          to = max finalStart finalEnd
      in take (nat (to - from)) (drop (nat from) s))"

definition slice :: "jsstring \<Rightarrow> int \<Rightarrow> int \<Rightarrow> jsstring" where
  \<comment> \<open>\<open>s.slice(start, end)\<close>: a negative index counts from the end, both are clamped,
      and the result is empty when \<open>from \<ge> to\<close>.\<close>
  "slice s start fin =
     (let len = int (length s);
          from = (if start < 0 then max (len + start) 0 else min start len);
          to = (if fin < 0 then max (len + fin) 0 else min fin len)
      in take (nat (to - from)) (drop (nat from) s))"

fun split :: "jsstring \<Rightarrow> code_unit \<Rightarrow> jsstring list" where
  \<comment> \<open>\<open>s.split(sep)\<close> for a separator of one code unit; the empty string gives \<open>[""]\<close>.\<close>
  "split [] sep = [[]]"
| "split (c # cs) sep =
     (if c = sep then [] # split cs sep
      else (case split cs sep of [] \<Rightarrow> [[c]] | w # ws \<Rightarrow> (c # w) # ws))"

fun join :: "jsstring list \<Rightarrow> jsstring \<Rightarrow> jsstring" where
  "join [] sep = []"
| "join [x] sep = x"
| "join (x # y # ys) sep = x @ sep @ join (y # ys) sep"

definition replaceMdSuffix :: "jsstring \<Rightarrow> jsstring" where
  \<comment> \<open>\<open>fn.replace(/\.md$/, "")\<close>: without the multiline flag \<open>$\<close> matches at the end of
      the input only, so the one possible match is a final \<open>.md\<close>.\<close>
  "replaceMdSuffix fn =
     (if suffix (js ''.md'') fn then take (length fn - 3) fn else fn)"

definition testDigits :: "nat \<Rightarrow> jsstring \<Rightarrow> bool" where
  \<comment> \<open>\<open>/^\d{n}$/.test(s)\<close>\<close>
  "testDigits n s \<longleftrightarrow> length s = n \<and> list_all isDigit s"

section \<open>Node's path and fs modules\<close>

text \<open>
  \<open>path.join\<close> (POSIX): the non-empty arguments are joined with \<open>/\<close> and the result is
  normalised: empty and \<open>.\<close> segments are dropped and a \<open>..\<close> segment removes the
  segment before it (or is kept, in a relative path, when there is none to remove).
\<close>

definition normalizeStep :: "bool \<Rightarrow> jsstring list \<Rightarrow> jsstring \<Rightarrow> jsstring list" where
  "normalizeStep allowAboveRoot res seg =
     (if seg = [] \<or> seg = [DOT] then res
      else if seg = [DOT, DOT] then
        (if res \<noteq> [] \<and> last res \<noteq> [DOT, DOT] then butlast res
         else if allowAboveRoot then res @ [seg]
         else res)
      else res @ [seg])"

definition normalizeString :: "jsstring \<Rightarrow> bool \<Rightarrow> jsstring" where
  "normalizeString path allowAboveRoot =
     join (foldl (normalizeStep allowAboveRoot) [] (split path SLASH)) [SLASH]"

definition normalize :: "jsstring \<Rightarrow> jsstring" where
  "normalize path =
     (if path = [] then [DOT]
      else
        (let isAbsolute = (hd path = SLASH);
             trailingSeparator = (last path = SLASH);
             p = normalizeString path (\<not> isAbsolute)
         in if p = [] then
              (if isAbsolute then [SLASH]
               else if trailingSeparator then [DOT, SLASH] else [DOT])
            else
              (let p' = (if trailingSeparator then p @ [SLASH] else p)
               in if isAbsolute then SLASH # p' else p')))"

definition path_join :: "jsstring list \<Rightarrow> jsstring" where
  "path_join args =
     (let parts = filter (\<lambda>arg. arg \<noteq> []) args
      in if parts = [] then [DOT] else normalize (join parts [SLASH]))"

text \<open>
  \<open>fs.readFileSync(path, "utf-8")\<close> and \<open>fs.readdirSync(path)\<close> are taken as the process
  finds them: for each path the text or the entry names returned, or the error thrown. A
  throw is the left summand of the result. Node throws a system error with code \<open>ENOENT\<close>
  when nothing exists at the path, and other errors for other failures (\<open>ENOTDIR\<close> when a
  component of the path is a file, \<open>EISDIR\<close>, \<open>ENAMETOOLONG\<close>, \<open>EACCES\<close>, a \<open>TypeError\<close>
  for a NUL in the path).
\<close>

datatype errno = ENOENT | ENOTDIR | EISDIR | ENAMETOOLONG | EACCES | OtherErrno jsstring

datatype error =
    SystemError errno jsstring
  | TypeError jsstring
  | Thrown jsstring

record fs_module =
  readFileSync :: "jsstring \<Rightarrow> error + jsstring"
  readdirSync :: "jsstring \<Rightarrow> error + jsstring list"

text \<open>
  An \<open>async\<close> function returns a promise: a throw inside it, or the \<open>await\<close> of a rejected
  promise, rejects the promise returned and nothing is thrown at the caller.
\<close>

datatype 'a promise = Fulfilled 'a | Rejected error

section \<open>Objects\<close>

text \<open>
  An object is the list of its properties in insertion order. The values are those YAML
  front matter can produce and those the library builds: strings, objects, arrays, and
  any other scalar (a number, boolean, date or null) kept by its source text. Assigning a
  property replaces the value of an existing key in place and appends a new key; the
  spread \<open>{ ...target, ...source }\<close> assigns the properties of the source in order, so a
  key of the source replaces the same key of the target.
\<close>

datatype jsvalue =
    JString jsstring
  | JScalar jsstring
  | JArray "jsvalue list"
  | JObject "(jsstring \<times> jsvalue) list"

type_synonym object = "(jsstring \<times> jsvalue) list"

definition getProp :: "object \<Rightarrow> jsstring \<Rightarrow> jsvalue option" where
  "getProp obj k = map_of obj k"

fun setProp :: "object \<Rightarrow> jsstring \<Rightarrow> jsvalue \<Rightarrow> object" where
  "setProp [] k v = [(k, v)]"
| "setProp (p # ps) k v = (if fst p = k then (k, v) # ps else p # setProp ps k v)"

definition spread :: "object \<Rightarrow> object \<Rightarrow> object" where
  "spread target source = foldl (\<lambda>obj (k, v). setProp obj k v) target source"

section \<open>The post library\<close>

record PostId =
  year :: jsstring
  month :: jsstring
  day :: jsstring
  slug :: jsstring

definition objectOfPostId :: "PostId \<Rightarrow> jsvalue" where
  \<comment> \<open>The object \<open>{ year, month, day, slug }\<close> as a value.\<close>
  "objectOfPostId p =
     JObject [(js ''year'', JString (year p)), (js ''month'', JString (month p)),
              (js ''day'', JString (day p)), (js ''slug'', JString (slug p))]"

text \<open>
  The result of gray-matter's \<open>matter(post)\<close>, of which the callers use \<open>data\<close> and
  \<open>content\<close>. \<open>data\<close> is the object parsed from the front matter, with whatever keys the
  file has: the cast \<open>as MatterData\<close> checks nothing. The parser itself and the unified
  processor are libraries outside the repository: they are parameters of the model,
  functions from the text they are given to a result or a throw (for the processor, a
  promise).
\<close>

record GrayMatterFile =
  data :: object
  content :: jsstring

type_synonym matter = "jsstring \<Rightarrow> error + GrayMatterFile"

type_synonym processor = "jsstring \<Rightarrow> jsstring promise"

definition postsDir :: jsstring where
  "postsDir = js ''posts''"

definition readMatter :: "matter \<Rightarrow> fs_module \<Rightarrow> jsstring \<Rightarrow> error + GrayMatterFile" where
  "readMatter matter fs fileName =
     (let filePath = path_join [postsDir, fileName]
      in case readFileSync fs filePath of
           Inl e \<Rightarrow> Inl e
         | Inr post \<Rightarrow> matter post)"

definition postFileName :: "PostId \<Rightarrow> jsstring" where
  \<comment> \<open>The template literal of \<open>getPostById\<close>: \<open>`${year}${month}${day}-${slug}.md`\<close>\<close>
  "postFileName args = year args @ month args @ day args @ js ''-'' @ slug args @ js ''.md''"

definition getPostById :: "matter \<Rightarrow> processor \<Rightarrow> fs_module \<Rightarrow> PostId \<Rightarrow> object promise" where
  \<comment> \<open>Returns \<open>{ html: postHtml, ...data }\<close>.\<close>
  "getPostById matter processor fs args =
     (case readMatter matter fs (postFileName args) of
        Inl e \<Rightarrow> Rejected e
      | Inr r \<Rightarrow>
          (case processor (content r) of
             Rejected e \<Rightarrow> Rejected e
           | Fulfilled postHtml \<Rightarrow>
               Fulfilled (spread [(js ''html'', JString postHtml)] (data r))))"

definition postIdOfFileName :: "jsstring \<Rightarrow> PostId" where
  \<comment> \<open>\<open>const [date, ...rest] = fn.replace(/\.md$/, "").split("-")\<close> and the four
      lines after it. \<open>split\<close> never returns an empty array, so \<open>date\<close> is defined.\<close>
  "postIdOfFileName fn =
     (let parts = split (replaceMdSuffix fn) HYPHEN;
          dateStr = hd parts;
          rest = tl parts;
          slug = join rest (js ''-'');
          year = slice dateStr 0 4;
          month = slice dateStr 4 6;
          day = slice dateStr 6 8
      in \<lparr>year = year, month = month, day = day, slug = slug\<rparr>)"

definition introOf :: "jsstring \<Rightarrow> jsstring" where
  \<comment> \<open>\<open>content.substring(0, content.trimStart().indexOf("\n") + 1)\<close>\<close>
  "introOf text = substring text 0 (indexOf (trimStart text) LF + 1)"

definition postInfoOfFile :: "matter \<Rightarrow> fs_module \<Rightarrow> jsstring \<Rightarrow> error + object" where
  \<comment> \<open>The callback \<open>fn => { ... }\<close> mapped over the file names; it returns
      \<open>{ id, intro, ...data }\<close>.\<close>
  "postInfoOfFile matter fs fn =
     (case readMatter matter fs fn of
        Inl e \<Rightarrow> Inl e
      | Inr r \<Rightarrow>
          Inr (spread [(js ''id'', objectOfPostId (postIdOfFileName fn)),
                       (js ''intro'', JString (introOf (content r)))]
                 (data r)))"

fun mapThrowing :: "('a \<Rightarrow> error + 'b) \<Rightarrow> 'a list \<Rightarrow> error + 'b list" where
  \<comment> \<open>\<open>Array.prototype.map\<close> with a callback that may throw: the first throw ends it.\<close>
  "mapThrowing f [] = Inr []"
| "mapThrowing f (x # xs) =
     (case f x of
        Inl e \<Rightarrow> Inl e
      | Inr y \<Rightarrow> (case mapThrowing f xs of Inl e \<Rightarrow> Inl e | Inr ys \<Rightarrow> Inr (y # ys)))"

definition getPostInfosOrderedByDateDesc :: "matter \<Rightarrow> fs_module \<Rightarrow> error + object list" where
  \<comment> \<open>\<open>sort()\<close> without a comparator orders strings by their code units; \<open>sort\<close> on
      lists of words under the lexicographic order is that order.\<close>
  "getPostInfosOrderedByDateDesc matter fs =
     (case readdirSync fs postsDir of
        Inl e \<Rightarrow> Inl e
      | Inr names \<Rightarrow>
          (let fileNames = rev (sort names)
           in mapThrowing (postInfoOfFile matter fs) fileNames))"

definition isValidPostId :: "jsstring list \<Rightarrow> bool" where
  \<comment> \<open>The guard of the post page.\<close>
  "isValidPostId ids \<longleftrightarrow>
     length ids = 4 \<and> testDigits 4 (ids ! 0) \<and> testDigits 2 (ids ! 1) \<and> testDigits 2 (ids ! 2)"

section \<open>Dates\<close>

text \<open>
  The calendar order of two post identifiers: the year, month and day fields read as
  decimal numbers and compared in that order.
\<close>

definition digitVal :: "code_unit \<Rightarrow> nat" where
  "digitVal c = unat c - 48"

fun decimal :: "jsstring \<Rightarrow> nat" where
  "decimal [] = 0"
| "decimal (c # cs) = digitVal c * 10 ^ length cs + decimal cs"

definition isEarlier :: "PostId \<Rightarrow> PostId \<Rightarrow> bool" where
  "isEarlier a b \<longleftrightarrow>
     decimal (year a) < decimal (year b) \<or>
     (decimal (year a) = decimal (year b) \<and>
       (decimal (month a) < decimal (month b) \<or>
        (decimal (month a) = decimal (month b) \<and> decimal (day a) < decimal (day b))))"

section \<open>The intro as specified\<close>

text \<open>
  The intro in the words of the specification: the substring of the body from its start
  up to and including the first line break that occurs after the leading whitespace.
\<close>

definition introAsSpecified :: "jsstring \<Rightarrow> jsstring" where
  "introAsSpecified text =
     (let leading = length (takeWhile isWhiteSpace text);
          lineBreak = leading + nat (indexOf (trimStart text) LF)
      in take (lineBreak + 1) text)"

section \<open>An example site\<close>

text \<open>
  Three posts and, beside the posts directory, a file \<open>secret.md\<close>. The third post has
  the front-matter key \<open>intro\<close>. The file system answers \<open>ENOENT\<close> for every other path.
  The parser answers as gray-matter does on these four texts (the front matter parsed to
  an object, the body without the line break that ends the closing delimiter; a text
  without front matter is all body); the processor wraps its input in a paragraph.
\<close>

definition efCoreText :: jsstring where
  "efCoreText = js ''---'' @ [LF] @ js ''title: EF Core'' @ [LF] @ js ''---'' @ [LF, LF]
     @ js ''EF intro'' @ [LF, LF] @ js ''More.''"

definition deepDiveText :: jsstring where
  "deepDiveText = js ''---'' @ [LF] @ js ''title: Deep dive'' @ [LF] @ js ''---'' @ [LF]
     @ js ''no line break''"

definition overrideText :: jsstring where
  "overrideText = js ''---'' @ [LF] @ js ''intro: OVERRIDE'' @ [LF] @ js ''---'' @ [LF]
     @ js ''no line break either''"

definition demoMatter :: matter where
  "demoMatter post =
     (if post = efCoreText then
        Inr \<lparr>data = [(js ''title'', JString (js ''EF Core''))],
             content = LF # js ''EF intro'' @ [LF, LF] @ js ''More.''\<rparr>
      else if post = deepDiveText then
        Inr \<lparr>data = [(js ''title'', JString (js ''Deep dive''))],
             content = js ''no line break''\<rparr>
      else if post = overrideText then
        Inr \<lparr>data = [(js ''intro'', JString (js ''OVERRIDE''))],
             content = js ''no line break either''\<rparr>
      else if prefix (js ''---'') post then Inl (Thrown (js ''not a text of the example''))
      else Inr \<lparr>data = [], content = post\<rparr>)"

definition demoProcessor :: processor where
  "demoProcessor text = Fulfilled (js ''<p>'' @ text @ js ''</p>'')"

definition demoNames :: "jsstring list" where
  "demoNames = [js ''20230921-EF-Core.md'', js ''20240101-Override.md'',
                js ''20231103-Deep-dive.md'']"

definition demoFs :: fs_module where
  "demoFs =
     \<lparr>readFileSync = (\<lambda>p.
        if p = js ''posts/20230921-EF-Core.md'' then Inr efCoreText
        else if p = js ''posts/20231103-Deep-dive.md'' then Inr deepDiveText
        else if p = js ''posts/20240101-Override.md'' then Inr overrideText
        else if p = js ''secret.md'' then Inr (js ''password'')
        else if p = js ''posts'' then Inl (SystemError EISDIR p)
        else Inl (SystemError ENOENT p)),
      readdirSync = (\<lambda>p.
        if p = js ''posts'' then Inr demoNames
        else if p \<in> set [js ''posts/20230921-EF-Core.md'', js ''posts/20231103-Deep-dive.md'',
                           js ''posts/20240101-Override.md'', js ''secret.md'']
        then Inl (SystemError ENOTDIR p)
        else Inl (SystemError ENOENT p))\<rparr>"

definition demoListing :: "object list" where
  "demoListing =
     [[(js ''id'', objectOfPostId \<lparr>year = js ''2024'', month = js ''01'', day = js ''01'',
                                  slug = js ''Override''\<rparr>),
       (js ''intro'', JString (js ''OVERRIDE''))],
      [(js ''id'', objectOfPostId \<lparr>year = js ''2023'', month = js ''11'', day = js ''03'',
                                  slug = js ''Deep-dive''\<rparr>),
       (js ''intro'', JString []),
       (js ''title'', JString (js ''Deep dive''))],
      [(js ''id'', objectOfPostId \<lparr>year = js ''2023'', month = js ''09'', day = js ''21'',
                                  slug = js ''EF-Core''\<rparr>),
       (js ''intro'', JString (LF # js ''EF intro'')),
       (js ''title'', JString (js ''EF Core''))]]"

section \<open>String and list lemmas\<close>

lemma indexOf_absent: "c \<notin> set s \<Longrightarrow> indexOf s c = -1"
  by (induction s) (auto simp: Let_def)

lemma indexOf_ge: "- 1 \<le> indexOf s c"
  by (induction s) (auto simp: Let_def)

lemma indexOf_le_length: "indexOf s c < int (length s)"
  by (induction s) (auto simp: Let_def)

lemma indexOf_present: "c \<in> set s \<Longrightarrow> 0 \<le> indexOf s c"
  by (induction s) (auto simp: Let_def)

lemma indexOf_takeWhile: "c \<in> set s \<Longrightarrow> nat (indexOf s c) = length (takeWhile (\<lambda>x. x \<noteq> c) s)"
proof (induction s)
  case Nil
  then show ?case by simp
next
  case (Cons x xs)
  show ?case
  proof (cases "x = c")
    case True
    then show ?thesis by simp
  next
    case False
    with Cons.prems have "c \<in> set xs" by simp
    then show ?thesis using Cons.IH indexOf_present [of c xs] False
      by (simp add: Let_def nat_add_distrib)
  qed
qed

lemma trimStart_subset: "set (trimStart s) \<subseteq> set s"
  unfolding trimStart_def by (auto dest: set_dropWhileD)

lemma length_trimStart: "length (trimStart s) \<le> length s"
  by (simp add: trimStart_def length_dropWhile_le)

lemma mapThrowing_Inr:
  "mapThrowing f xs = Inr ys \<Longrightarrow> length ys = length xs \<and> (\<forall>i<length xs. f (xs ! i) = Inr (ys ! i))"
proof (induction xs arbitrary: ys)
  case Nil
  then show ?case by simp
next
  case (Cons x xs)
  from Cons.prems obtain y ys' where fx: "f x = Inr y" and m: "mapThrowing f xs = Inr ys'" and ys: "ys = y # ys'"
    by (auto split: sum.splits)
  from Cons.IH [OF m] have len: "length ys' = length xs" and nth: "\<forall>i<length xs. f (xs ! i) = Inr (ys' ! i)"
    by simp_all
  show ?case
  proof (intro conjI allI impI)
    show "length ys = length (x # xs)" using len ys by simp
  next
    fix i assume "i < length (x # xs)"
    then show "f ((x # xs) ! i) = Inr (ys ! i)"
      using fx nth ys by (cases i) simp_all
  qed
qed

lemma mapThrowing_total:
  "(\<forall>x\<in>set xs. \<exists>y. f x = Inr y) \<Longrightarrow> \<exists>ys. mapThrowing f xs = Inr ys"
  by (induction xs) (auto split: sum.splits)

lemma split_not_Nil: "split s sep \<noteq> []"
  by (induction s) (auto split: list.splits)

lemma split_no_sep: "sep \<notin> set d \<Longrightarrow> split (d @ sep # s) sep = d # split s sep"
  by (induction d) (auto split: list.splits)

lemma split_none: "sep \<notin> set s \<Longrightarrow> split s sep = [s]"
  by (induction s) auto

lemma hd_split: "hd (split s sep) = takeWhile (\<lambda>c. c \<noteq> sep) s"
proof (induction s)
  case Nil
  then show ?case by simp
next
  case (Cons c cs)
  then show ?case using split_not_Nil [of cs sep]
    by (cases "split cs sep") auto
qed

lemma join_Cons: "join (x # xs) sep = (if xs = [] then x else x @ sep @ join xs sep)"
  by (cases xs) simp_all

lemma join_split: "join (split s sep) [sep] = s"
proof (induction s)
  case Nil
  then show ?case by simp
next
  case (Cons c cs)
  show ?case
  proof (cases "c = sep")
    case True
    then show ?thesis using Cons.IH split_not_Nil [of cs sep]
      by (simp add: join_Cons)
  next
    case False
    obtain w ws where sp: "split cs sep = w # ws"
      using split_not_Nil [of cs sep] by (cases "split cs sep") auto
    with Cons.IH False show ?thesis
      by (simp add: join_Cons split: if_splits)
  qed
qed

lemma replaceMdSuffix_md: "replaceMdSuffix (stem @ js ''.md'') = stem"
proof -
  have "suffix (js ''.md'') (stem @ js ''.md'')" by (rule suffix_appendI) simp
  moreover have "length (js ''.md'') = 3" by (simp add: js_def)
  ultimately show ?thesis by (simp add: replaceMdSuffix_def)
qed

lemma slice_date: "length d = 8 \<Longrightarrow> slice d 0 4 @ slice d 4 6 @ slice d 6 8 = d"
proof -
  assume len: "length d = 8"
  have "take 2 (drop 4 d) @ take 2 (drop 6 d) = take 2 (drop 4 d) @ take 2 (drop 2 (drop 4 d))"
    by simp
  also have "\<dots> = take (2 + 2) (drop 4 d)" by (simp only: take_add)
  also have "\<dots> = drop 4 d" using len by simp
  finally have "take 4 d @ take 2 (drop 4 d) @ take 2 (drop 6 d) = d" by simp
  then show ?thesis using len by (simp add: slice_def)
qed

lemma date_prefix_parts: "take 8 fn = take 4 fn @ take 2 (drop 4 fn) @ take 2 (drop 6 fn)"
proof -
  have "take 2 (drop 4 fn) @ take 2 (drop 6 fn) = take 2 (drop 4 fn) @ take 2 (drop 2 (drop 4 fn))"
    by simp
  also have "\<dots> = take (2 + 2) (drop 4 fn)" by (simp only: take_add)
  finally have "take 4 fn @ take 2 (drop 4 fn) @ take 2 (drop 6 fn) = take 4 fn @ take 4 (drop 4 fn)"
    by simp
  also have "\<dots> = take (4 + 4) fn" by (simp only: take_add)
  finally show ?thesis by simp
qed

lemma digits_no_hyphen: "list_all isDigit d \<Longrightarrow> HYPHEN \<notin> set d"
  by (auto simp: list_all_iff isDigit_def HYPHEN_def)

lemma digits_no_dot: "list_all isDigit d \<Longrightarrow> DOT \<notin> set d"
  by (auto simp: list_all_iff isDigit_def DOT_def)

lemma digits_no_slash: "list_all isDigit d \<Longrightarrow> SLASH \<notin> set d"
  by (auto simp: list_all_iff isDigit_def SLASH_def)

lemma digit_less: "isDigit a \<Longrightarrow> isDigit b \<Longrightarrow> (a < b \<longleftrightarrow> digitVal a < digitVal b)"
  by (auto simp: isDigit_def digitVal_def word_less_nat_alt word_le_nat_alt)

lemma digit_eq: "isDigit a \<Longrightarrow> isDigit b \<Longrightarrow> (a = b \<longleftrightarrow> digitVal a = digitVal b)"
  using digit_less [of a b] digit_less [of b a] by (auto simp: not_less_iff_gr_or_eq)

lemma digitVal_bound: "isDigit a \<Longrightarrow> digitVal a < 10"
  by (auto simp: isDigit_def digitVal_def word_le_nat_alt)

lemma decimal_bound: "list_all isDigit s \<Longrightarrow> decimal s < 10 ^ length s"
proof (induction s)
  case Nil
  then show ?case by simp
next
  case (Cons c cs)
  then have v: "digitVal c + 1 \<le> 10" and r: "decimal cs < 10 ^ length cs"
    using digitVal_bound [of c] by simp_all
  have "digitVal c * 10 ^ length cs + decimal cs < digitVal c * 10 ^ length cs + 10 ^ length cs"
    using r by simp
  also have "\<dots> = (digitVal c + 1) * 10 ^ length cs" by simp
  also have "\<dots> \<le> 10 * 10 ^ length cs" using v by (rule mult_le_mono1)
  finally show ?case by simp
qed

lemma place_less:
  fixes P :: nat
  assumes "va < vb" and "x < P"
  shows "va * P + x < vb * P + y"
proof -
  have "(va + 1) * P \<le> vb * P" using assms(1) by (intro mult_le_mono1) simp
  then show ?thesis using assms(2) by simp
qed

lemma lex_decimal:
  "length s = length t \<Longrightarrow> list_all isDigit s \<Longrightarrow> list_all isDigit t \<Longrightarrow>
     (s < t \<longleftrightarrow> decimal s < decimal t) \<and> (s = t \<longleftrightarrow> decimal s = decimal t)"
proof (induction s t rule: list_induct2)
  case Nil
  then show ?case by simp
next
  case (Cons a s b t)
  then have da: "isDigit a" and db: "isDigit b"
    and IH: "(s < t \<longleftrightarrow> decimal s < decimal t)" "(s = t \<longleftrightarrow> decimal s = decimal t)"
    and bs: "decimal s < 10 ^ length s" and bt: "decimal t < 10 ^ length s"
    using decimal_bound [of s] decimal_bound [of t] by simp_all
  consider (lt) "digitVal a < digitVal b" | (eq) "digitVal a = digitVal b" | (gt) "digitVal b < digitVal a"
    by linarith
  then show ?case
  proof cases
    case lt
    then have "a < b" using digit_less [OF da db] by simp
    moreover have "decimal (a # s) < decimal (b # t)"
      using place_less [OF lt bs] Cons.hyps by simp
    ultimately show ?thesis by auto
  next
    case eq
    then have "a = b" using digit_eq [OF da db] by simp
    then show ?thesis using IH Cons.hyps by simp
  next
    case gt
    then have "b < a" using digit_less [OF db da] by simp
    moreover have "decimal (b # t) < decimal (a # s)"
      using place_less [OF gt bt] Cons.hyps by simp
    ultimately show ?thesis by auto
  qed
qed

lemma append_less_same_length:
  fixes a b :: jsstring
  shows "length a = length b \<Longrightarrow> (a @ x < b @ y \<longleftrightarrow> a < b \<or> (a = b \<and> x < y))"
  by (induction a b rule: list_induct2) auto

section \<open>Objects and the spread\<close>

lemma getProp_setProp: "getProp (setProp obj k v) k' = (if k' = k then Some v else getProp obj k')"
  by (induction obj) (auto simp: getProp_def)

lemma getProp_spread_absent:
  "getProp source k = None \<Longrightarrow> getProp (spread target source) k = getProp target k"
proof (induction source arbitrary: target)
  case Nil
  then show ?case by (simp add: spread_def)
next
  case (Cons p ps)
  obtain k' v where p: "p = (k', v)" by (cases p)
  from Cons.prems p have ne: "k \<noteq> k'" and rest: "getProp ps k = None"
    by (auto simp: getProp_def split: if_splits)
  have "getProp (spread (setProp target k' v) ps) k = getProp (setProp target k' v) k"
    using rest by (rule Cons.IH)
  then show ?case using ne by (simp add: spread_def p getProp_setProp)
qed

lemma id_of_info:
  "getProp source (js ''id'') = None \<Longrightarrow>
     getProp (spread [(js ''id'', v), (js ''intro'', w)] source) (js ''id'') = Some v"
  by (simp add: getProp_spread_absent) (simp add: getProp_def)

lemma intro_of_info:
  "getProp source (js ''intro'') = None \<Longrightarrow>
     getProp (spread [(js ''id'', v), (js ''intro'', w)] source) (js ''intro'') = Some w"
  by (simp add: getProp_spread_absent) (simp add: getProp_def js_def)

section \<open>The example site\<close>

lemma demo_listing: "getPostInfosOrderedByDateDesc demoMatter demoFs = Inr demoListing"
  by code_simp

lemma demo_sorted: "rev (sort demoNames) =
    [js ''20240101-Override.md'', js ''20231103-Deep-dive.md'', js ''20230921-EF-Core.md'']"
  by code_simp

section \<open>What the two functions return\<close>

text \<open>
  \<open>getPostById\<close> reads one path, hands the text to the parser and the body to the
  processor, and fulfils its promise with \<open>{ html, ...data }\<close>; an error of any of the
  three steps rejects the promise. Each entry of the listing is \<open>{ id, intro, ...data }\<close>
  for the file at the same position of the sorted, reversed names.
\<close>

lemma getPostById_outcome:
  "getPostById matter processor fs args =
     (case readFileSync fs (path_join [postsDir, postFileName args]) of
        Inl e \<Rightarrow> Rejected e
      | Inr post \<Rightarrow>
          (case matter post of
             Inl e \<Rightarrow> Rejected e
           | Inr r \<Rightarrow>
               (case processor (content r) of
                  Rejected e \<Rightarrow> Rejected e
                | Fulfilled h \<Rightarrow> Fulfilled (spread [(js ''html'', JString h)] (data r)))))"
  by (simp add: getPostById_def readMatter_def split: sum.splits)

lemma postInfoOfFile_Inr:
  assumes "postInfoOfFile matter fs fn = Inr info"
  shows "\<exists>r. readMatter matter fs fn = Inr r
           \<and> info = spread [(js ''id'', objectOfPostId (postIdOfFileName fn)),
                             (js ''intro'', JString (introOf (content r)))] (data r)"
proof (cases "readMatter matter fs fn")
  case (Inl e)
  with assms show ?thesis by (simp add: postInfoOfFile_def)
next
  case (Inr r)
  with assms show ?thesis by (simp add: postInfoOfFile_def)
qed

lemma listed_info:
  assumes rd: "readdirSync fs postsDir = Inr names"
    and infos: "getPostInfosOrderedByDateDesc matter fs = Inr infos"
    and i: "i < length infos"
  shows "length infos = length names
       \<and> (\<exists>r. readMatter matter fs (rev (sort names) ! i) = Inr r
             \<and> infos ! i = spread [(js ''id'', objectOfPostId (postIdOfFileName (rev (sort names) ! i))),
                                   (js ''intro'', JString (introOf (content r)))] (data r))"
proof -
  from rd infos have m: "mapThrowing (postInfoOfFile matter fs) (rev (sort names)) = Inr infos"
    by (simp add: getPostInfosOrderedByDateDesc_def)
  from mapThrowing_Inr [OF m] i
  have "length infos = length names"
    and "postInfoOfFile matter fs (rev (sort names) ! i) = Inr (infos ! i)"
    by auto
  then show ?thesis using postInfoOfFile_Inr by blast
qed

section \<open>The identifier of a post\<close>

lemma postIdOfFileName_fields:
  assumes d: "testDigits 8 d"
  shows "postIdOfFileName (d @ js ''-'' @ s @ js ''.md'') =
           \<lparr>year = slice d 0 4, month = slice d 4 6, day = slice d 6 8, slug = s\<rparr>"
proof -
  have len: "length d = 8" and dig: "list_all isDigit d" using d by (simp_all add: testDigits_def)
  have nohyp: "HYPHEN \<notin> set d"
    using dig by (auto simp: list_all_iff isDigit_def HYPHEN_def)
  have strip: "replaceMdSuffix (d @ js ''-'' @ s @ js ''.md'') = d @ HYPHEN # s"
    using replaceMdSuffix_md [of "d @ js ''-'' @ s"] by (simp add: js_def HYPHEN_def)
  have sp: "split (d @ HYPHEN # s) HYPHEN = d # split s HYPHEN"
    using nohyp by (rule split_no_sep)
  have jn: "join (split s HYPHEN) (js ''-'') = s"
    using join_split [of s HYPHEN] by (simp add: js_def HYPHEN_def)
  show ?thesis
    by (simp add: postIdOfFileName_def strip sp jn Let_def)
qed

text \<open>
  C1. For a file name \<open>YYYYMMDD-slug.md\<close> (eight digits, a hyphen, any slug, hyphens
  included), the identifier derived from it gives the stem back when year, month, day,
  a hyphen and the slug are concatenated, and the file name \<open>getPostById\<close> builds from
  that identifier is the file's name: called with the identifier, \<open>getPostById\<close> reads
  \<open>posts/\<close> joined with that name, parses the text read and renders the body.
  \<open>getPostInfosOrderedByDateDesc\<close> puts this identifier under \<open>id\<close> in the entry of the
  file; it is the \<open>id\<close> of the entry returned when the front matter has no key \<open>id\<close>.
\<close>

theorem postId_roundtrip:
  assumes d: "testDigits 8 d" and fn: "fn = d @ js ''-'' @ s @ js ''.md''"
  shows "year (postIdOfFileName fn) @ month (postIdOfFileName fn) @ day (postIdOfFileName fn)
           @ js ''-'' @ slug (postIdOfFileName fn) = d @ js ''-'' @ s
       \<and> postFileName (postIdOfFileName fn) = fn
       \<and> getPostById matter processor fs (postIdOfFileName fn) =
           (case readFileSync fs (path_join [postsDir, fn]) of
              Inl e \<Rightarrow> Rejected e
            | Inr post \<Rightarrow>
                (case matter post of
                   Inl e \<Rightarrow> Rejected e
                 | Inr r \<Rightarrow>
                     (case processor (content r) of
                        Rejected e \<Rightarrow> Rejected e
                      | Fulfilled h \<Rightarrow> Fulfilled (spread [(js ''html'', JString h)] (data r)))))
       \<and> (\<forall>names infos i. readdirSync fs postsDir = Inr names
             \<and> getPostInfosOrderedByDateDesc matter fs = Inr infos
             \<and> i < length infos \<and> rev (sort names) ! i = fn
           \<longrightarrow> (\<exists>r. readMatter matter fs fn = Inr r
                 \<and> infos ! i = spread [(js ''id'', objectOfPostId (postIdOfFileName fn)),
                                       (js ''intro'', JString (introOf (content r)))] (data r)
                 \<and> (getProp (data r) (js ''id'') = None
                      \<longrightarrow> getProp (infos ! i) (js ''id'') = Some (objectOfPostId (postIdOfFileName fn)))))"
proof -
  have len: "length d = 8" using d by (simp add: testDigits_def)
  have pid: "postIdOfFileName fn = \<lparr>year = slice d 0 4, month = slice d 4 6, day = slice d 6 8, slug = s\<rparr>"
    unfolding fn using d by (rule postIdOfFileName_fields)
  have cat: "slice d 0 4 @ slice d 4 6 @ slice d 6 8 = d" using len by (rule slice_date)
  have stem: "year (postIdOfFileName fn) @ month (postIdOfFileName fn) @ day (postIdOfFileName fn)
           @ js ''-'' @ slug (postIdOfFileName fn) = d @ js ''-'' @ s"
    using cat by (simp add: pid)
  have name: "postFileName (postIdOfFileName fn) = fn"
    using stem by (simp add: postFileName_def fn)
  have reads: "getPostById matter processor fs (postIdOfFileName fn) =
           (case readFileSync fs (path_join [postsDir, fn]) of
              Inl e \<Rightarrow> Rejected e
            | Inr post \<Rightarrow>
                (case matter post of
                   Inl e \<Rightarrow> Rejected e
                 | Inr r \<Rightarrow>
                     (case processor (content r) of
                        Rejected e \<Rightarrow> Rejected e
                      | Fulfilled h \<Rightarrow> Fulfilled (spread [(js ''html'', JString h)] (data r)))))"
    using getPostById_outcome [of matter processor fs "postIdOfFileName fn"] by (simp only: name)
  have listed: "\<exists>r. readMatter matter fs fn = Inr r
                 \<and> infos ! i = spread [(js ''id'', objectOfPostId (postIdOfFileName fn)),
                                       (js ''intro'', JString (introOf (content r)))] (data r)
                 \<and> (getProp (data r) (js ''id'') = None
                      \<longrightarrow> getProp (infos ! i) (js ''id'') = Some (objectOfPostId (postIdOfFileName fn)))"
    if rd: "readdirSync fs postsDir = Inr names"
      and infos: "getPostInfosOrderedByDateDesc matter fs = Inr infos"
      and i: "i < length infos" and ith: "rev (sort names) ! i = fn"
    for names infos i
  proof -
    from listed_info [OF rd infos i] ith obtain r where r: "readMatter matter fs fn = Inr r"
      and info: "infos ! i = spread [(js ''id'', objectOfPostId (postIdOfFileName fn)),
                                    (js ''intro'', JString (introOf (content r)))] (data r)"
      by auto
    have "getProp (data r) (js ''id'') = None
            \<longrightarrow> getProp (infos ! i) (js ''id'') = Some (objectOfPostId (postIdOfFileName fn))"
      unfolding info by (simp add: id_of_info)
    then have k: "getProp (data r) (js ''id'') = None
            \<longrightarrow> getProp (infos ! i) (js ''id'') = Some (objectOfPostId (postIdOfFileName fn))" .
    show ?thesis
    proof (intro exI conjI)
      show "readMatter matter fs fn = Inr r" by (rule r)
      show "infos ! i = spread [(js ''id'', objectOfPostId (postIdOfFileName fn)),
                                (js ''intro'', JString (introOf (content r)))] (data r)"
        by (rule info)
      show "getProp (data r) (js ''id'') = None
            \<longrightarrow> getProp (infos ! i) (js ''id'') = Some (objectOfPostId (postIdOfFileName fn))"
        by (rule k)
    qed
  qed
  show ?thesis
  proof (intro conjI allI impI)
    show "year (postIdOfFileName fn) @ month (postIdOfFileName fn) @ day (postIdOfFileName fn)
           @ js ''-'' @ slug (postIdOfFileName fn) = d @ js ''-'' @ s" by (rule stem)
    show "postFileName (postIdOfFileName fn) = fn" by (rule name)
    show "getPostById matter processor fs (postIdOfFileName fn) =
           (case readFileSync fs (path_join [postsDir, fn]) of
              Inl e \<Rightarrow> Rejected e
            | Inr post \<Rightarrow>
                (case matter post of
                   Inl e \<Rightarrow> Rejected e
                 | Inr r \<Rightarrow>
                     (case processor (content r) of
                        Rejected e \<Rightarrow> Rejected e
                      | Fulfilled h \<Rightarrow> Fulfilled (spread [(js ''html'', JString h)] (data r)))))"
      by (rule reads)
  next
    fix names infos i
    assume "readdirSync fs postsDir = Inr names
             \<and> getPostInfosOrderedByDateDesc matter fs = Inr infos
             \<and> i < length infos \<and> rev (sort names) ! i = fn"
    then show "\<exists>r. readMatter matter fs fn = Inr r
                 \<and> infos ! i = spread [(js ''id'', objectOfPostId (postIdOfFileName fn)),
                                       (js ''intro'', JString (introOf (content r)))] (data r)
                 \<and> (getProp (data r) (js ''id'') = None
                      \<longrightarrow> getProp (infos ! i) (js ''id'') = Some (objectOfPostId (postIdOfFileName fn)))"
      by (elim conjE) (rule listed)
  qed
qed

text \<open>
  The round trip on the example site, for the post of 21 September 2023.
\<close>

theorem postId_roundtrip_witness:
  "testDigits 8 (js ''20230921'')
   \<and> postFileName (postIdOfFileName (js ''20230921-EF-Core.md'')) = js ''20230921-EF-Core.md''
   \<and> getPostById demoMatter demoProcessor demoFs
        \<lparr>year = js ''2023'', month = js ''09'', day = js ''21'', slug = js ''EF-Core''\<rparr>
       = Fulfilled [(js ''html'', JString (js ''<p>'' @ [LF] @ js ''EF intro'' @ [LF, LF] @ js ''More.</p>'')),
                    (js ''title'', JString (js ''EF Core''))]
   \<and> getPostInfosOrderedByDateDesc demoMatter demoFs = Inr demoListing
   \<and> getProp (demoListing ! 2) (js ''id'')
       = Some (objectOfPostId \<lparr>year = js ''2023'', month = js ''09'', day = js ''21'', slug = js ''EF-Core''\<rparr>)"
proof -
  let ?fn = "js ''20230921-EF-Core.md''"
  have d: "testDigits 8 (js ''20230921'')" by code_simp
  have fn: "?fn = js ''20230921'' @ js ''-'' @ js ''EF-Core'' @ js ''.md''"
    by code_simp
  note t = postId_roundtrip [OF d fn, of demoMatter demoProcessor demoFs]
  have pid: "postIdOfFileName ?fn = \<lparr>year = js ''2023'', month = js ''09'', day = js ''21'', slug = js ''EF-Core''\<rparr>"
    by code_simp
  have rhs: "(case readFileSync demoFs (path_join [postsDir, ?fn]) of
              Inl e \<Rightarrow> Rejected e
            | Inr post \<Rightarrow>
                (case demoMatter post of
                   Inl e \<Rightarrow> Rejected e
                 | Inr r \<Rightarrow>
                     (case demoProcessor (content r) of
                        Rejected e \<Rightarrow> Rejected e
                      | Fulfilled h \<Rightarrow> Fulfilled (spread [(js ''html'', JString h)] (data r)))))
       = Fulfilled [(js ''html'', JString (js ''<p>'' @ [LF] @ js ''EF intro'' @ [LF, LF] @ js ''More.</p>'')),
                    (js ''title'', JString (js ''EF Core''))]"
    by code_simp
  note name = t [THEN conjunct2, THEN conjunct1]
  note reads = t [THEN conjunct2, THEN conjunct2, THEN conjunct1]
  note listed = t [THEN conjunct2, THEN conjunct2, THEN conjunct2, rule_format]
  have got: "getPostById demoMatter demoProcessor demoFs (postIdOfFileName ?fn)
       = Fulfilled [(js ''html'', JString (js ''<p>'' @ [LF] @ js ''EF intro'' @ [LF, LF] @ js ''More.</p>'')),
                    (js ''title'', JString (js ''EF Core''))]"
    using reads by (simp only: rhs)
  have rd: "readdirSync demoFs postsDir = Inr demoNames" by code_simp
  have ith: "rev (sort demoNames) ! 2 = ?fn" by code_simp
  have len: "2 < length demoListing" by code_simp
  from listed [OF conjI [OF rd conjI [OF demo_listing conjI [OF len ith]]]]
  obtain r where r: "readMatter demoMatter demoFs ?fn = Inr r"
    and k: "getProp (data r) (js ''id'') = None
              \<longrightarrow> getProp (demoListing ! 2) (js ''id'') = Some (objectOfPostId (postIdOfFileName ?fn))"
    by (elim exE conjE)
  have "readMatter demoMatter demoFs ?fn
      = Inr \<lparr>data = [(js ''title'', JString (js ''EF Core''))],
             content = LF # js ''EF intro'' @ [LF, LF] @ js ''More.''\<rparr>"
    by code_simp
  with r have "data r = [(js ''title'', JString (js ''EF Core''))]" by auto
  moreover have "getProp [(js ''title'', JString (js ''EF Core''))] (js ''id'') = None" by code_simp
  ultimately have "getProp (demoListing ! 2) (js ''id'') = Some (objectOfPostId (postIdOfFileName ?fn))"
    using k by simp
  then show ?thesis
    using d name got demo_listing unfolding pid by (intro conjI)
qed

section \<open>The order of the listing\<close>

lemma replaceMdSuffix_keeps_date:
  assumes "testDigits 8 (take 8 fn)"
  shows "take 8 (replaceMdSuffix fn) = take 8 fn"
proof (cases "suffix (js ''.md'') fn")
  case False
  then show ?thesis by (simp add: replaceMdSuffix_def)
next
  case True
  then obtain x where fn: "fn = x @ js ''.md''" by (auto simp: suffix_def)
  have dig: "list_all isDigit (take 8 fn)" and len: "length (take 8 fn) = 8"
    using assms by (simp_all add: testDigits_def)
  have "8 \<le> length x"
  proof (rule ccontr)
    assume "\<not> 8 \<le> length x"
    then have lx: "length x < 8" by simp
    have "fn ! length x = DOT" by (simp add: fn js_def DOT_def nth_append)
    moreover have "length x < length (take 8 fn)" using lx len by simp
    ultimately have "DOT \<in> set (take 8 fn)"
      by (metis nth_mem nth_take lx)
    then show False using digits_no_dot [OF dig] by simp
  qed
  moreover have "replaceMdSuffix fn = x"
    using True by (simp add: replaceMdSuffix_def fn js_def)
  ultimately show ?thesis by (simp add: fn)
qed

lemma postId_date_fields:
  assumes "testDigits 8 (take 8 fn)"
  shows "year (postIdOfFileName fn) = take 4 fn
       \<and> month (postIdOfFileName fn) = take 2 (drop 4 fn)
       \<and> day (postIdOfFileName fn) = take 2 (drop 6 fn)"
proof -
  define d where "d = take 8 fn"
  define s where "s = replaceMdSuffix fn"
  have dig: "list_all isDigit d" and len: "length d = 8"
    using assms by (simp_all add: testDigits_def d_def)
  have sd: "take 8 s = d" unfolding s_def d_def using assms by (rule replaceMdSuffix_keeps_date)
  then have s: "s = d @ drop 8 s" by (metis append_take_drop_id)
  have "\<And>c. c \<in> set d \<Longrightarrow> c \<noteq> HYPHEN" using digits_no_hyphen [OF dig] by auto
  then have "takeWhile (\<lambda>c. c \<noteq> HYPHEN) (d @ drop 8 s) = d @ takeWhile (\<lambda>c. c \<noteq> HYPHEN) (drop 8 s)"
    by (rule takeWhile_append2)
  then have "takeWhile (\<lambda>c. c \<noteq> HYPHEN) s = d @ takeWhile (\<lambda>c. c \<noteq> HYPHEN) (drop 8 s)"
    using s by simp
  then obtain w where date: "hd (split s HYPHEN) = d @ w" by (simp add: hd_split)
  have "slice (d @ w) 0 4 = take 4 d" "slice (d @ w) 4 6 = take 2 (drop 4 d)"
       "slice (d @ w) 6 8 = take 2 (drop 6 d)"
    using len by (simp_all add: slice_def)
  moreover have "take 4 d = take 4 fn" "take 2 (drop 4 d) = take 2 (drop 4 fn)"
       "take 2 (drop 6 d) = take 2 (drop 6 fn)"
    by (simp_all add: d_def drop_take)
  ultimately show ?thesis
    using date by (simp add: postIdOfFileName_def Let_def flip: s_def)
qed

lemma names_order_is_date_order:
  assumes f: "testDigits 8 (take 8 f)" and g: "testDigits 8 (take 8 g)"
    and ne: "take 8 f \<noteq> take 8 g"
  shows "f < g \<longleftrightarrow> isEarlier (postIdOfFileName f) (postIdOfFileName g)"
proof -
  let ?y = "take 4 f" and ?m = "take 2 (drop 4 f)" and ?d = "take 2 (drop 6 f)"
  let ?y' = "take 4 g" and ?m' = "take 2 (drop 4 g)" and ?d' = "take 2 (drop 6 g)"
  have lf: "length f \<ge> 8" and lg: "length g \<ge> 8"
    using f g by (auto simp: testDigits_def)
  have df: "list_all isDigit (?y @ ?m @ ?d)" and dg: "list_all isDigit (?y' @ ?m' @ ?d')"
    using f g by (simp_all only: testDigits_def flip: date_prefix_parts)
  have "f < g \<longleftrightarrow> take 8 f @ drop 8 f < take 8 g @ drop 8 g" by simp
  also have "\<dots> \<longleftrightarrow> take 8 f < take 8 g"
    using ne lf lg by (subst append_less_same_length) auto
  also have "\<dots> \<longleftrightarrow> ?y @ ?m @ ?d < ?y' @ ?m' @ ?d'"
    by (simp only: date_prefix_parts)
  also have "\<dots> \<longleftrightarrow> ?y < ?y' \<or> (?y = ?y' \<and> (?m < ?m' \<or> (?m = ?m' \<and> ?d < ?d')))"
    using lf lg by (simp add: append_less_same_length)
  also have "\<dots> \<longleftrightarrow> decimal ?y < decimal ?y' \<or> (decimal ?y = decimal ?y' \<and>
       (decimal ?m < decimal ?m' \<or> (decimal ?m = decimal ?m' \<and> decimal ?d < decimal ?d')))"
    using lex_decimal [of ?y ?y'] lex_decimal [of ?m ?m'] lex_decimal [of ?d ?d'] df dg lf lg
    by simp
  finally show ?thesis
    using postId_date_fields [OF f] postId_date_fields [OF g] by (simp add: isEarlier_def)
qed

lemma sorted_names_descending:
  fixes names :: "jsstring list"
  assumes "distinct names"
  shows "sorted_wrt (\<lambda>a b. b < a) (rev (sort names))"
proof -
  have "sorted (sort names)" "distinct (sort names)" using assms by simp_all
  then have "sorted_wrt (<) (sort names)" by (simp add: strict_sorted_iff)
  then show ?thesis by (simp add: sorted_wrt_rev)
qed

text \<open>
  C2. When the names in the posts directory begin with eight digits, no two names with
  the same eight, and every file is read and parsed, \<open>getPostInfosOrderedByDateDesc\<close>
  returns one summary per file, in the order of the names sorted and reversed, and in
  that order every file has a date prefix strictly later than those of all files after
  it: the descending order of the names is the descending order of the dates. When no
  front matter has a key \<open>id\<close>, the identifiers of the summaries returned are in that
  strictly descending order.
\<close>

theorem listing_newest_first:
  assumes rd: "readdirSync fs postsDir = Inr names"
    and ok: "\<forall>fn\<in>set names. \<exists>r. readMatter matter fs fn = Inr r"
    and dig: "\<forall>fn\<in>set names. testDigits 8 (take 8 fn)"
    and dist: "distinct (map (take 8) names)"
  shows "\<exists>infos. getPostInfosOrderedByDateDesc matter fs = Inr infos
           \<and> length infos = length names
           \<and> sorted_wrt (\<lambda>f g. isEarlier (postIdOfFileName g) (postIdOfFileName f)) (rev (sort names))
           \<and> (\<forall>i<length names. \<exists>r. readMatter matter fs (rev (sort names) ! i) = Inr r
                 \<and> infos ! i = spread [(js ''id'', objectOfPostId (postIdOfFileName (rev (sort names) ! i))),
                                       (js ''intro'', JString (introOf (content r)))] (data r))
           \<and> ((\<forall>fn\<in>set names. \<forall>r. readMatter matter fs fn = Inr r \<longrightarrow> getProp (data r) (js ''id'') = None)
                \<longrightarrow> sorted_wrt (\<lambda>a b. \<exists>pa pb. getProp a (js ''id'') = Some (objectOfPostId pa)
                                          \<and> getProp b (js ''id'') = Some (objectOfPostId pb)
                                          \<and> isEarlier pb pa) infos)"
proof -
  define fileNames where "fileNames = rev (sort names)"
  have set_fns: "set fileNames = set names" by (simp add: fileNames_def)
  have len_fns: "length fileNames = length names" by (simp add: fileNames_def)
  have dn: "distinct names" and inj: "inj_on (take 8) (set names)"
    using dist by (simp_all add: distinct_map)
  have desc: "sorted_wrt (\<lambda>a b. b < a) fileNames"
    unfolding fileNames_def using dn by (rule sorted_names_descending)
  have "\<forall>fn\<in>set fileNames. \<exists>info. postInfoOfFile matter fs fn = Inr info"
    using ok set_fns by (auto simp: postInfoOfFile_def)
  then obtain infos where m: "mapThrowing (postInfoOfFile matter fs) fileNames = Inr infos"
    using mapThrowing_total by blast
  then have res: "getPostInfosOrderedByDateDesc matter fs = Inr infos"
    using rd by (simp add: getPostInfosOrderedByDateDesc_def fileNames_def)
  from mapThrowing_Inr [OF m] have len: "length infos = length fileNames" by simp
  have earlier: "isEarlier (postIdOfFileName (fileNames ! j)) (postIdOfFileName (fileNames ! i))"
    if ij: "i < j" and j: "j < length fileNames" for i j
  proof -
    have i: "i < length fileNames" using ij j by simp
    have fi: "fileNames ! i \<in> set names" and fj: "fileNames ! j \<in> set names"
      using i j set_fns nth_mem by blast+
    have lt: "fileNames ! j < fileNames ! i"
      using desc ij j by (simp add: sorted_wrt_iff_nth_less)
    then have "fileNames ! j \<noteq> fileNames ! i" by simp
    then have ne: "take 8 (fileNames ! j) \<noteq> take 8 (fileNames ! i)"
      using inj fi fj by (auto dest: inj_onD)
    show ?thesis
      using names_order_is_date_order [OF _ _ ne] dig fi fj lt by blast
  qed
  then have files: "sorted_wrt (\<lambda>f g. isEarlier (postIdOfFileName g) (postIdOfFileName f)) fileNames"
    by (simp add: sorted_wrt_iff_nth_less)
  have each: "\<exists>r. readMatter matter fs (fileNames ! i) = Inr r
                 \<and> infos ! i = spread [(js ''id'', objectOfPostId (postIdOfFileName (fileNames ! i))),
                                       (js ''intro'', JString (introOf (content r)))] (data r)"
    if "i < length names" for i
    using listed_info [OF rd res, of i] that len len_fns by (simp add: fileNames_def)
  have ids: "sorted_wrt (\<lambda>a b. \<exists>pa pb. getProp a (js ''id'') = Some (objectOfPostId pa)
                                          \<and> getProp b (js ''id'') = Some (objectOfPostId pb)
                                          \<and> isEarlier pb pa) infos"
    if noid: "\<forall>fn\<in>set names. \<forall>r. readMatter matter fs fn = Inr r \<longrightarrow> getProp (data r) (js ''id'') = None"
  proof -
    have idk: "getProp (infos ! k) (js ''id'') = Some (objectOfPostId (postIdOfFileName (fileNames ! k)))"
      if k: "k < length names" for k
    proof -
      from each [OF k] obtain r where r: "readMatter matter fs (fileNames ! k) = Inr r"
        and info: "infos ! k = spread [(js ''id'', objectOfPostId (postIdOfFileName (fileNames ! k))),
                                       (js ''intro'', JString (introOf (content r)))] (data r)"
        by blast
      have "fileNames ! k \<in> set names" using k len_fns set_fns nth_mem by metis
      then have "getProp (data r) (js ''id'') = None" using noid r by blast
      then show ?thesis unfolding info by (rule id_of_info)
    qed
    have "\<exists>pa pb. getProp (infos ! i) (js ''id'') = Some (objectOfPostId pa)
                 \<and> getProp (infos ! j) (js ''id'') = Some (objectOfPostId pb) \<and> isEarlier pb pa"
      if ij: "i < j" and j: "j < length infos" for i j
    proof (intro exI conjI)
      show "getProp (infos ! i) (js ''id'') = Some (objectOfPostId (postIdOfFileName (fileNames ! i)))"
        using idk [of i] ij j len len_fns by simp
      show "getProp (infos ! j) (js ''id'') = Some (objectOfPostId (postIdOfFileName (fileNames ! j)))"
        using idk [of j] j len len_fns by simp
      show "isEarlier (postIdOfFileName (fileNames ! j)) (postIdOfFileName (fileNames ! i))"
        using earlier [OF ij] j len by simp
    qed
    then show ?thesis by (simp add: sorted_wrt_iff_nth_less)
  qed
  have c2: "length infos = length names" using len len_fns by simp
  have c3: "sorted_wrt (\<lambda>f g. isEarlier (postIdOfFileName g) (postIdOfFileName f)) (rev (sort names))"
    using files by (simp only: fileNames_def)
  have c4: "\<forall>i<length names. \<exists>r. readMatter matter fs (rev (sort names) ! i) = Inr r
                 \<and> infos ! i = spread [(js ''id'', objectOfPostId (postIdOfFileName (rev (sort names) ! i))),
                                       (js ''intro'', JString (introOf (content r)))] (data r)"
    using each unfolding fileNames_def by blast
  have c5: "(\<forall>fn\<in>set names. \<forall>r. readMatter matter fs fn = Inr r \<longrightarrow> getProp (data r) (js ''id'') = None)
                \<longrightarrow> sorted_wrt (\<lambda>a b. \<exists>pa pb. getProp a (js ''id'') = Some (objectOfPostId pa)
                                          \<and> getProp b (js ''id'') = Some (objectOfPostId pb)
                                          \<and> isEarlier pb pa) infos"
    using ids by (intro impI)
  show ?thesis
    by (rule exI [of _ infos]) (intro conjI; fact res c2 c3 c4 c5)
qed

text \<open>
  The three posts of the example site are listed newest first.
\<close>

theorem listing_newest_first_witness:
  "readdirSync demoFs postsDir = Inr demoNames
   \<and> testDigits 8 (take 8 (js ''20230921-EF-Core.md''))
   \<and> testDigits 8 (take 8 (js ''20240101-Override.md''))
   \<and> testDigits 8 (take 8 (js ''20231103-Deep-dive.md''))
   \<and> distinct (map (take 8) demoNames)
   \<and> getPostInfosOrderedByDateDesc demoMatter demoFs = Inr demoListing
   \<and> rev (sort demoNames)
       = [js ''20240101-Override.md'', js ''20231103-Deep-dive.md'', js ''20230921-EF-Core.md'']
   \<and> sorted_wrt (\<lambda>f g. isEarlier (postIdOfFileName g) (postIdOfFileName f)) (rev (sort demoNames))"
proof -
  have rd: "readdirSync demoFs postsDir = Inr demoNames" by code_simp
  have r1: "readMatter demoMatter demoFs (js ''20230921-EF-Core.md'')
      = Inr \<lparr>data = [(js ''title'', JString (js ''EF Core''))],
             content = LF # js ''EF intro'' @ [LF, LF] @ js ''More.''\<rparr>"
    by code_simp
  have r2: "readMatter demoMatter demoFs (js ''20231103-Deep-dive.md'')
      = Inr \<lparr>data = [(js ''title'', JString (js ''Deep dive''))], content = js ''no line break''\<rparr>"
    by code_simp
  have r3: "readMatter demoMatter demoFs (js ''20240101-Override.md'')
      = Inr \<lparr>data = [(js ''intro'', JString (js ''OVERRIDE''))], content = js ''no line break either''\<rparr>"
    by code_simp
  have ok: "\<forall>fn\<in>set demoNames. \<exists>r. readMatter demoMatter demoFs fn = Inr r"
    using r1 r2 r3 by (simp add: demoNames_def)
  have d1: "testDigits 8 (take 8 (js ''20230921-EF-Core.md''))" by code_simp
  have d2: "testDigits 8 (take 8 (js ''20240101-Override.md''))" by code_simp
  have d3: "testDigits 8 (take 8 (js ''20231103-Deep-dive.md''))" by code_simp
  have dig: "\<forall>fn\<in>set demoNames. testDigits 8 (take 8 fn)"
    using d1 d2 d3 by (simp add: demoNames_def)
  have dist: "distinct (map (take 8) demoNames)" by code_simp
  from listing_newest_first [OF rd ok dig dist]
  have srt: "sorted_wrt (\<lambda>f g. isEarlier (postIdOfFileName g) (postIdOfFileName f)) (rev (sort demoNames))"
    by (elim exE conjE)
  show ?thesis
    by (intro conjI; fact rd d1 d2 d3 dist demo_listing demo_sorted srt)
qed

section \<open>The intro of a post\<close>

lemma introOf_no_line_break: "LF \<notin> set text \<Longrightarrow> introOf text = []"
proof -
  assume "LF \<notin> set text"
  then have "LF \<notin> set (trimStart text)" using trimStart_subset by blast
  then have "indexOf (trimStart text) LF = -1" by (rule indexOf_absent)
  then show ?thesis by (simp add: introOf_def substring_def)
qed

lemma introOf_take: "introOf body = take (nat (indexOf (trimStart body) LF + 1)) body"
proof -
  have "- 1 \<le> indexOf (trimStart body) LF" by (rule indexOf_ge)
  moreover have "indexOf (trimStart body) LF < int (length body)"
    using indexOf_le_length [of "trimStart body" LF] length_trimStart [of body] by simp
  ultimately show ?thesis
    by (simp add: introOf_def substring_def Let_def min_def max_def)
qed

lemma introOf_without_leading_whitespace:
  assumes "LF \<in> set body" and "\<not> isWhiteSpace (hd body)"
  shows "introOf body = introAsSpecified body"
    and "introOf body = takeWhile (\<lambda>c. c \<noteq> LF) body @ [LF]"
proof -
  have ne: "body \<noteq> []" using assms(1) by auto
  then have tr: "trimStart body = body" and tw: "takeWhile isWhiteSpace body = []"
    using assms(2) by (cases body; simp add: trimStart_def)+
  have k: "0 \<le> indexOf body LF" using assms(1) by (rule indexOf_present)
  then have n: "nat (indexOf body LF + 1) = nat (indexOf body LF) + 1" by simp
  show "introOf body = introAsSpecified body"
    by (simp add: introOf_take introAsSpecified_def tr tw n)
  have "take (length (takeWhile (\<lambda>c. c \<noteq> LF) body) + 1) body = takeWhile (\<lambda>c. c \<noteq> LF) body @ [LF]"
    using assms(1)
  proof (induction body)
    case Nil
    then show ?case by simp
  next
    case (Cons x xs)
    then show ?case by (cases "x = LF") auto
  qed
  then show "introOf body = takeWhile (\<lambda>c. c \<noteq> LF) body @ [LF]"
    using indexOf_takeWhile [OF assms(1)] by (simp add: introOf_take tr n)
qed

lemma introOf_short_by_leading_whitespace:
  assumes "LF \<in> set (trimStart body)"
  shows "length (introOf body) + length (takeWhile isWhiteSpace body)
           = length (introAsSpecified body)"
proof -
  let ?k = "indexOf (trimStart body) LF"
  have k0: "0 \<le> ?k" using assms by (rule indexOf_present)
  have k1: "?k < int (length (trimStart body))" by (rule indexOf_le_length)
  have len: "length body = length (takeWhile isWhiteSpace body) + length (trimStart body)"
    unfolding trimStart_def by (metis length_append takeWhile_dropWhile_id)
  obtain n where n: "?k = int n" using k0 by (rule nonneg_int_cases)
  have n1: "n < length (trimStart body)" using k1 n by simp
  have a: "length (introOf body) = n + 1"
    using n1 len by (simp add: introOf_take n nat_add_distrib)
  have b: "length (introAsSpecified body) = length (takeWhile isWhiteSpace body) + n + 1"
    using n1 len by (simp add: introAsSpecified_def Let_def n)
  show ?thesis using a b by simp
qed

text \<open>
  C9. When the body of a listed post contains no line feed, \<open>indexOf\<close> returns \<open>-1\<close>,
  the substring taken is \<open>substring(0, 0)\<close>, and the intro computed is the empty string.
  The entry of the post is \<open>{ id, intro: "", ...data }\<close>: its intro is the empty string
  when the front matter has no key \<open>intro\<close>.
\<close>

theorem intro_empty_without_line_break:
  assumes "readdirSync fs postsDir = Inr names"
    and "getPostInfosOrderedByDateDesc matter fs = Inr infos"
    and "i < length infos"
    and "readMatter matter fs (rev (sort names) ! i) = Inr r"
    and "LF \<notin> set (content r)"
  shows "introOf (content r) = []
       \<and> infos ! i = spread [(js ''id'', objectOfPostId (postIdOfFileName (rev (sort names) ! i))),
                             (js ''intro'', JString [])] (data r)
       \<and> (getProp (data r) (js ''intro'') = None
            \<longrightarrow> getProp (infos ! i) (js ''intro'') = Some (JString []))"
proof -
  have e: "introOf (content r) = []" using assms(5) by (rule introOf_no_line_break)
  from listed_info [OF assms(1,2,3)] assms(4)
  have info: "infos ! i = spread [(js ''id'', objectOfPostId (postIdOfFileName (rev (sort names) ! i))),
                             (js ''intro'', JString [])] (data r)"
    using e by auto
  have "getProp (data r) (js ''intro'') = None
            \<longrightarrow> getProp (infos ! i) (js ''intro'') = Some (JString [])"
    unfolding info by (simp add: intro_of_info)
  with e info show ?thesis by (intro conjI)
qed

text \<open>
  On the example site the post of 3 November 2023 has a body without line feed.
\<close>

theorem intro_empty_without_line_break_witness:
  "readdirSync demoFs postsDir = Inr demoNames
   \<and> getPostInfosOrderedByDateDesc demoMatter demoFs = Inr demoListing
   \<and> rev (sort demoNames) ! 1 = js ''20231103-Deep-dive.md''
   \<and> readMatter demoMatter demoFs (js ''20231103-Deep-dive.md'')
       = Inr \<lparr>data = [(js ''title'', JString (js ''Deep dive''))], content = js ''no line break''\<rparr>
   \<and> LF \<notin> set (js ''no line break'')
   \<and> getProp [(js ''title'', JString (js ''Deep dive''))] (js ''intro'') = None
   \<and> getProp (demoListing ! 1) (js ''intro'') = Some (JString [])"
proof -
  let ?r = "\<lparr>data = [(js ''title'', JString (js ''Deep dive''))], content = js ''no line break''\<rparr>"
  have rd: "readdirSync demoFs postsDir = Inr demoNames" by code_simp
  have len: "1 < length demoListing" by code_simp
  have ith: "rev (sort demoNames) ! 1 = js ''20231103-Deep-dive.md''" by code_simp
  have rm: "readMatter demoMatter demoFs (js ''20231103-Deep-dive.md'') = Inr ?r" by code_simp
  have rm': "readMatter demoMatter demoFs (rev (sort demoNames) ! 1) = Inr ?r"
    unfolding ith by (rule rm)
  have nolf: "LF \<notin> set (js ''no line break'')" by code_simp
  have nolf': "LF \<notin> set (content ?r)" using nolf by simp
  have nokey: "getProp [(js ''title'', JString (js ''Deep dive''))] (js ''intro'') = None" by code_simp
  have nokey': "getProp (data ?r) (js ''intro'') = None" using nokey by simp
  from intro_empty_without_line_break [OF rd demo_listing len rm' nolf'] nokey'
  have res: "getProp (demoListing ! 1) (js ''intro'') = Some (JString [])" by (elim conjE impE)
  show ?thesis
    by (intro conjI; fact rd demo_listing ith rm nolf nokey res)
qed

text \<open>
  Without the condition on the front matter the statement fails: the post of 1 January
  2024 has a body without line feed and the front-matter key \<open>intro\<close>, and its intro in
  the listing is the value of that key.
\<close>

theorem intro_override_counterexample:
  "readdirSync demoFs postsDir = Inr demoNames
   \<and> rev (sort demoNames) ! 0 = js ''20240101-Override.md''
   \<and> readMatter demoMatter demoFs (js ''20240101-Override.md'')
       = Inr \<lparr>data = [(js ''intro'', JString (js ''OVERRIDE''))], content = js ''no line break either''\<rparr>
   \<and> LF \<notin> set (js ''no line break either'')
   \<and> getPostInfosOrderedByDateDesc demoMatter demoFs = Inr demoListing
   \<and> getProp (demoListing ! 0) (js ''intro'') = Some (JString (js ''OVERRIDE''))
   \<and> JString (js ''OVERRIDE'') \<noteq> JString []"
  by code_simp

text \<open>
  C3. The end index is found in the body without its leading whitespace and applied to
  the body with it. After two blank lines the intro stops one code unit before the end
  of the first line, and after the one blank line that follows the front matter of a
  post it stops before the line break; the intro as specified ends with the line break
  in both cases.
\<close>

theorem introOf_cuts_first_line:
  "introOf ([LF, LF] @ js ''Hello world'' @ [LF] @ js ''more'') = [LF, LF] @ js ''Hello worl''
   \<and> introAsSpecified ([LF, LF] @ js ''Hello world'' @ [LF] @ js ''more'')
       = [LF, LF] @ js ''Hello world'' @ [LF]
   \<and> introOf ([LF] @ js ''Hello world'' @ [LF, LF] @ js ''more'') = [LF] @ js ''Hello world''
   \<and> introAsSpecified ([LF] @ js ''Hello world'' @ [LF, LF] @ js ''more'')
       = [LF] @ js ''Hello world'' @ [LF]"
  by code_simp

section \<open>Reading a post by its identifier\<close>

text \<open>
  C4. When \<open>readFileSync\<close> finds nothing at the path joined from \<open>posts\<close> and the file
  name built from the identifier, and throws \<open>ENOENT\<close>, the promise of \<open>getPostById\<close> is
  rejected with that error, whatever the parser and the processor are: nothing is thrown
  at the caller and the promise is never fulfilled with a rendered post.
\<close>

theorem getPostById_missing_file:
  assumes "readFileSync fs (path_join [postsDir,
             year args @ month args @ day args @ js ''-'' @ slug args @ js ''.md''])
           = Inl (SystemError ENOENT p)"
  shows "getPostById matter processor fs args = Rejected (SystemError ENOENT p)
       \<and> (\<forall>post. getPostById matter processor fs args \<noteq> Fulfilled post)"
  using assms getPostById_outcome [of matter processor fs args]
  by (simp add: postFileName_def)

text \<open>
  The example site has no post of 2 February 2024.
\<close>

theorem getPostById_missing_file_witness:
  "readFileSync demoFs (js ''posts/20240202-nothing.md'')
     = Inl (SystemError ENOENT (js ''posts/20240202-nothing.md''))
   \<and> getPostById demoMatter demoProcessor demoFs
        \<lparr>year = js ''2024'', month = js ''02'', day = js ''02'', slug = js ''nothing''\<rparr>
       = Rejected (SystemError ENOENT (js ''posts/20240202-nothing.md''))"
proof -
  let ?a = "\<lparr>year = js ''2024'', month = js ''02'', day = js ''02'', slug = js ''nothing''\<rparr>"
  have p: "path_join [postsDir, year ?a @ month ?a @ day ?a @ js ''-'' @ slug ?a @ js ''.md'']
           = js ''posts/20240202-nothing.md''"
    by code_simp
  have n: "readFileSync demoFs (js ''posts/20240202-nothing.md'')
     = Inl (SystemError ENOENT (js ''posts/20240202-nothing.md''))" by code_simp
  have n': "readFileSync demoFs (path_join [postsDir, year ?a @ month ?a @ day ?a @ js ''-'' @ slug ?a @ js ''.md''])
     = Inl (SystemError ENOENT (js ''posts/20240202-nothing.md''))"
    unfolding p by (rule n)
  from getPostById_missing_file [OF n', of demoMatter demoProcessor]
  have "getPostById demoMatter demoProcessor demoFs ?a
       = Rejected (SystemError ENOENT (js ''posts/20240202-nothing.md''))"
    by (elim conjE)
  with n show ?thesis by (intro conjI)
qed

text \<open>
  That the file name is no entry of the posts directory is not enough: with the slug
  \<open>/../../secret\<close> the name is none of the three entries, the joined path is
  \<open>secret.md\<close>, and a rendered post is returned.
\<close>

theorem getPostById_outside_posts_counterexample:
  "readdirSync demoFs postsDir = Inr demoNames
   \<and> postFileName \<lparr>year = js ''2023'', month = js ''09'', day = js ''21'', slug = js ''/../../secret''\<rparr>
       = js ''20230921-/../../secret.md''
   \<and> js ''20230921-/../../secret.md'' \<notin> set demoNames
   \<and> getPostById demoMatter demoProcessor demoFs
        \<lparr>year = js ''2023'', month = js ''09'', day = js ''21'', slug = js ''/../../secret''\<rparr>
       = Fulfilled [(js ''html'', JString (js ''<p>password</p>''))]"
  by code_simp

lemma traversal_split:
  assumes "SLASH \<notin> set a" "SLASH \<notin> set b" "SLASH \<notin> set c"
  shows "split (a @ SLASH # b @ SLASH # DOT # DOT # SLASH # DOT # DOT # SLASH # c) SLASH
           = [a, b, [DOT, DOT], [DOT, DOT], c]"
proof -
  have dd: "SLASH \<notin> set [DOT, DOT]" by (simp add: SLASH_def DOT_def)
  have "split (a @ SLASH # b @ SLASH # [DOT, DOT] @ SLASH # [DOT, DOT] @ SLASH # c) SLASH
           = [a, b, [DOT, DOT], [DOT, DOT], c]"
    by (simp only: split_no_sep [OF assms(1)] split_no_sep [OF assms(2)] split_no_sep [OF dd]
          split_none [OF assms(3)])
  then show ?thesis by simp
qed

lemma traversal_path:
  assumes y: "testDigits 4 y" and m: "testDigits 2 m" and d: "testDigits 2 d"
    and name: "SLASH \<notin> set name"
  shows "path_join [postsDir, y @ m @ d @ js ''-'' @ (js ''/../../'' @ name) @ js ''.md'']
           = name @ js ''.md''"
proof -
  define a where "a = js ''posts''"
  define b where "b = y @ m @ d @ [HYPHEN]"
  define c where "c = name @ js ''.md''"
  have sa: "SLASH \<notin> set a" by (simp add: a_def js_def SLASH_def)
  have sb: "SLASH \<notin> set b"
    using y m d digits_no_slash by (auto simp: b_def testDigits_def SLASH_def HYPHEN_def)
  have sc: "SLASH \<notin> set c" using name by (simp add: c_def js_def SLASH_def)
  have lb: "length b = 9" using y m d by (simp add: b_def testDigits_def)
  have a_ne: "a \<noteq> []" "a \<noteq> [DOT]" "a \<noteq> [DOT, DOT]" by (simp_all add: a_def js_def)
  have b_ne: "b \<noteq> []" "b \<noteq> [DOT]" "b \<noteq> [DOT, DOT]" using lb by auto
  have lc: "3 \<le> length c" by (simp add: c_def js_def)
  have c_ne: "c \<noteq> []" "c \<noteq> [DOT]" "c \<noteq> [DOT, DOT]" using lc by auto
  have arg: "y @ m @ d @ js ''-'' @ (js ''/../../'' @ name) @ js ''.md''
      = b @ SLASH # DOT # DOT # SLASH # DOT # DOT # SLASH # c"
    by (simp add: b_def c_def js_def SLASH_def DOT_def HYPHEN_def)
  define p where "p = a @ SLASH # b @ SLASH # DOT # DOT # SLASH # DOT # DOT # SLASH # c"
  have joined: "join [a, b @ SLASH # DOT # DOT # SLASH # DOT # DOT # SLASH # c] [SLASH] = p"
    by (simp add: p_def)
  have sp: "split p SLASH = [a, b, [DOT, DOT], [DOT, DOT], c]"
    unfolding p_def using sa sb sc by (rule traversal_split)
  have norm: "normalizeString p True = c"
    using a_ne b_ne c_ne by (simp add: normalizeString_def sp normalizeStep_def)
  have hdp: "hd p \<noteq> SLASH" by (simp add: p_def a_def js_def SLASH_def)
  have lastp: "last p \<noteq> SLASH" using c_ne(1) by (simp add: p_def c_def js_def SLASH_def)
  have pne: "p \<noteq> []" using a_ne(1) by (simp add: p_def)
  have np: "normalize p = c"
    using hdp lastp pne c_ne(1) by (simp add: normalize_def norm Let_def)
  define q where "q = b @ SLASH # DOT # DOT # SLASH # DOT # DOT # SLASH # c"
  have qne: "q \<noteq> []" by (simp add: q_def)
  have "path_join [a, q] = normalize (join [a, q] [SLASH])"
    using a_ne(1) qne by (simp add: path_join_def)
  also have "\<dots> = c" using joined np by (simp add: q_def)
  finally show ?thesis by (simp only: postsDir_def arg a_def q_def c_def)
qed

lemma not_under_posts:
  assumes "SLASH \<notin> set p"
  shows "\<not> prefix (js ''posts/'') p"
proof
  assume "prefix (js ''posts/'') p"
  then have "set (js ''posts/'') \<subseteq> set p" by (rule set_mono_prefix)
  moreover have "SLASH \<in> set (js ''posts/'')" by (simp add: js_def SLASH_def)
  ultimately show False using assms by blast
qed

text \<open>
  C10. For every identifier \<open>getPostById\<close> reads one path, the join of \<open>posts\<close> with
  the four fields concatenated as they are, and what it returns is made of the text
  read there; no other path of the file system matters. The guard of the page tests
  the digits of year, month and day and nothing of the slug. For a year, month and day
  that pass the guard and the slug \<open>/../../name\<close>, that path is \<open>name.md\<close> in the working
  directory, which is not under \<open>posts/\<close>, and the text of that file is what is parsed
  and rendered.
\<close>

theorem getPostById_reads_unvalidated_path:
  "getPostById matter processor fs args =
     (case readFileSync fs (path_join [postsDir,
              year args @ month args @ day args @ js ''-'' @ slug args @ js ''.md'']) of
        Inl e \<Rightarrow> Rejected e
      | Inr post \<Rightarrow>
          (case matter post of
             Inl e \<Rightarrow> Rejected e
           | Inr r \<Rightarrow>
               (case processor (content r) of
                  Rejected e \<Rightarrow> Rejected e
                | Fulfilled h \<Rightarrow> Fulfilled (spread [(js ''html'', JString h)] (data r)))))
   \<and> (readFileSync fs (path_join [postsDir,
              year args @ month args @ day args @ js ''-'' @ slug args @ js ''.md''])
        = readFileSync fs' (path_join [postsDir,
              year args @ month args @ day args @ js ''-'' @ slug args @ js ''.md''])
      \<longrightarrow> getPostById matter processor fs args = getPostById matter processor fs' args)
   \<and> isValidPostId [y, m, d, s] = (testDigits 4 y \<and> testDigits 2 m \<and> testDigits 2 d)
   \<and> (testDigits 4 y \<and> testDigits 2 m \<and> testDigits 2 d \<and> SLASH \<notin> set name
      \<longrightarrow> isValidPostId [y, m, d, js ''/../../'' @ name]
        \<and> path_join [postsDir, y @ m @ d @ js ''-'' @ (js ''/../../'' @ name) @ js ''.md'']
            = name @ js ''.md''
        \<and> \<not> prefix (js ''posts/'') (name @ js ''.md'')
        \<and> getPostById matter processor fs
             \<lparr>year = y, month = m, day = d, slug = js ''/../../'' @ name\<rparr> =
            (case readFileSync fs (name @ js ''.md'') of
               Inl e \<Rightarrow> Rejected e
             | Inr post \<Rightarrow>
                 (case matter post of
                    Inl e \<Rightarrow> Rejected e
                  | Inr r \<Rightarrow>
                      (case processor (content r) of
                         Rejected e \<Rightarrow> Rejected e
                       | Fulfilled h \<Rightarrow> Fulfilled (spread [(js ''html'', JString h)] (data r))))))"
proof (intro conjI impI)
  show "getPostById matter processor fs args =
     (case readFileSync fs (path_join [postsDir,
              year args @ month args @ day args @ js ''-'' @ slug args @ js ''.md'']) of
        Inl e \<Rightarrow> Rejected e
      | Inr post \<Rightarrow>
          (case matter post of
             Inl e \<Rightarrow> Rejected e
           | Inr r \<Rightarrow>
               (case processor (content r) of
                  Rejected e \<Rightarrow> Rejected e
                | Fulfilled h \<Rightarrow> Fulfilled (spread [(js ''html'', JString h)] (data r)))))"
    using getPostById_outcome [of matter processor fs args] by (simp only: postFileName_def)
next
  assume "readFileSync fs (path_join [postsDir,
              year args @ month args @ day args @ js ''-'' @ slug args @ js ''.md''])
        = readFileSync fs' (path_join [postsDir,
              year args @ month args @ day args @ js ''-'' @ slug args @ js ''.md''])"
  then show "getPostById matter processor fs args = getPostById matter processor fs' args"
    by (simp add: getPostById_def readMatter_def postFileName_def)
next
  show "isValidPostId [y, m, d, s] = (testDigits 4 y \<and> testDigits 2 m \<and> testDigits 2 d)"
    by (simp add: isValidPostId_def)
next
  assume h: "testDigits 4 y \<and> testDigits 2 m \<and> testDigits 2 d \<and> SLASH \<notin> set name"
  then show "isValidPostId [y, m, d, js ''/../../'' @ name]"
    by (simp add: isValidPostId_def)
  from h show p: "path_join [postsDir, y @ m @ d @ js ''-'' @ (js ''/../../'' @ name) @ js ''.md'']
            = name @ js ''.md''"
    using traversal_path [of y m d name] by blast
  from h have "SLASH \<notin> set (name @ js ''.md'')" by (simp add: js_def SLASH_def)
  then show "\<not> prefix (js ''posts/'') (name @ js ''.md'')" by (rule not_under_posts)
  have "postFileName \<lparr>year = y, month = m, day = d, slug = js ''/../../'' @ name\<rparr>
      = y @ m @ d @ js ''-'' @ (js ''/../../'' @ name) @ js ''.md''"
    by (simp add: postFileName_def)
  then show "getPostById matter processor fs
             \<lparr>year = y, month = m, day = d, slug = js ''/../../'' @ name\<rparr> =
            (case readFileSync fs (name @ js ''.md'') of
               Inl e \<Rightarrow> Rejected e
             | Inr post \<Rightarrow>
                 (case matter post of
                    Inl e \<Rightarrow> Rejected e
                  | Inr r \<Rightarrow>
                      (case processor (content r) of
                         Rejected e \<Rightarrow> Rejected e
                       | Fulfilled h \<Rightarrow> Fulfilled (spread [(js ''html'', JString h)] (data r)))))"
    using getPostById_outcome [of matter processor fs
        "\<lparr>year = y, month = m, day = d, slug = js ''/../../'' @ name\<rparr>"] p
    by (simp only:)
qed

text \<open>
  On the example site the slug \<open>/../../secret\<close> renders the file \<open>secret.md\<close> beside
  the posts directory, and changing that file does not change the post of 21 September
  2023.
\<close>

theorem getPostById_reads_unvalidated_path_witness:
  "isValidPostId [js ''2023'', js ''09'', js ''21'', js ''/../../secret'']
   \<and> readFileSync demoFs (js ''secret.md'') = Inr (js ''password'')
   \<and> \<not> prefix (js ''posts/'') (js ''secret.md'')
   \<and> getPostById demoMatter demoProcessor demoFs
        \<lparr>year = js ''2023'', month = js ''09'', day = js ''21'', slug = js ''/../../secret''\<rparr>
       = Fulfilled [(js ''html'', JString (js ''<p>password</p>''))]
   \<and> getPostById demoMatter demoProcessor demoFs
        \<lparr>year = js ''2023'', month = js ''09'', day = js ''21'', slug = js ''EF-Core''\<rparr>
       = getPostById demoMatter demoProcessor
           (demoFs\<lparr>readFileSync := (readFileSync demoFs)(js ''secret.md'' := Inr (js ''changed''))\<rparr>)
        \<lparr>year = js ''2023'', month = js ''09'', day = js ''21'', slug = js ''EF-Core''\<rparr>"
proof -
  let ?ef = "\<lparr>year = js ''2023'', month = js ''09'', day = js ''21'', slug = js ''EF-Core''\<rparr>"
  let ?fs' = "demoFs\<lparr>readFileSync := (readFileSync demoFs)(js ''secret.md'' := Inr (js ''changed''))\<rparr>"
  note t = getPostById_reads_unvalidated_path [where fs = demoFs and fs' = ?fs' and args = ?ef
      and matter = demoMatter and processor = demoProcessor
      and y = "js ''2023''" and m = "js ''09''" and d = "js ''21''" and name = "js ''secret''"]
  note frame = t [THEN conjunct2, THEN conjunct1, rule_format]
  note trav = t [THEN conjunct2, THEN conjunct2, THEN conjunct2, rule_format]
  have y: "testDigits 4 (js ''2023'')" and m: "testDigits 2 (js ''09'')" and d: "testDigits 2 (js ''21'')"
    by code_simp+
  have name: "SLASH \<notin> set (js ''secret'')" by code_simp
  have sf: "readFileSync demoFs (js ''secret.md'') = Inr (js ''password'')" by code_simp
  have p: "path_join [postsDir, year ?ef @ month ?ef @ day ?ef @ js ''-'' @ slug ?ef @ js ''.md'']
      = js ''posts/20230921-EF-Core.md''"
    by code_simp
  have same: "readFileSync demoFs (js ''posts/20230921-EF-Core.md'')
      = readFileSync ?fs' (js ''posts/20230921-EF-Core.md'')"
    by code_simp
  have cat: "js ''/../../'' @ js ''secret'' = js ''/../../secret''" "js ''secret'' @ js ''.md'' = js ''secret.md''"
    by code_simp+
  note tr = trav [OF conjI [OF y conjI [OF m conjI [OF d name]]], unfolded cat]
  have v: "isValidPostId [js ''2023'', js ''09'', js ''21'', js ''/../../secret'']"
    using tr by (elim conjE)
  have out: "\<not> prefix (js ''posts/'') (js ''secret.md'')"
    using tr by (elim conjE)
  have rhs: "(case readFileSync demoFs (js ''secret.md'') of
               Inl e \<Rightarrow> Rejected e
             | Inr post \<Rightarrow>
                 (case demoMatter post of
                    Inl e \<Rightarrow> Rejected e
                  | Inr r \<Rightarrow>
                      (case demoProcessor (content r) of
                         Rejected e \<Rightarrow> Rejected e
                       | Fulfilled h \<Rightarrow> Fulfilled (spread [(js ''html'', JString h)] (data r)))))
      = Fulfilled [(js ''html'', JString (js ''<p>password</p>''))]"
    by code_simp
  have got: "getPostById demoMatter demoProcessor demoFs
        \<lparr>year = js ''2023'', month = js ''09'', day = js ''21'', slug = js ''/../../secret''\<rparr>
       = Fulfilled [(js ''html'', JString (js ''<p>password</p>''))]"
    using tr unfolding rhs by (elim conjE)
  have eq: "getPostById demoMatter demoProcessor demoFs ?ef
       = getPostById demoMatter demoProcessor ?fs' ?ef"
    using frame same unfolding p by blast
  show ?thesis
    by (intro conjI; fact v sf out got eq)
qed

end
